theory Spec2Isabelle
  imports
    Main
    "HOL-Library.Sublist"
    "HOL-Library.Char_ord"
    "HOL-Library.List_Lexorder"
    "HOL-Library.Multiset"
begin

section \<open>Field errors of package apis (apis/field\_error.go)\<close>

text \<open>
  A Go \<open>string\<close> is a byte sequence, here a \<open>char list\<close>. The order on strings used by
  \<open>sort.Slice\<close> with \<open><\<close> is the byte-wise lexicographic one, which is the order of
  \<open>List_Lexorder\<close> over \<open>Char_ord\<close>.
\<close>

subsection \<open>Library functions the code calls\<close>

text \<open>\<open>strings.Split(s, sep)\<close> for a separator of one byte: the pieces between the
  occurrences of the separator, always at least one piece.\<close>

fun split_byte :: "char \<Rightarrow> string \<Rightarrow> string \<Rightarrow> string list" where
  "split_byte c cur [] = [cur]"
| "split_byte c cur (x # xs) =
     (if x = c then cur # split_byte c [] xs else split_byte c (cur @ [x]) xs)"

definition strings_Split :: "string \<Rightarrow> char \<Rightarrow> string list" where
  "strings_Split s c = split_byte c [] s"

text \<open>\<open>strings.Join(elems, sep)\<close>.\<close>

fun strings_Join :: "string list \<Rightarrow> string \<Rightarrow> string" where
  "strings_Join [] sep = []"
| "strings_Join [x] sep = x"
| "strings_Join (x # y # ys) sep = x @ sep @ strings_Join (y # ys) sep"

definition strings_HasPrefix :: "string \<Rightarrow> string \<Rightarrow> bool" where
  "strings_HasPrefix s p = prefix p s"

definition strings_HasSuffix :: "string \<Rightarrow> string \<Rightarrow> bool" where
  "strings_HasSuffix s p = suffix p s"

subsection \<open>Path flattening\<close>

definition CurrentField :: string where
  "CurrentField = ''''"

definition isIndex :: "string \<Rightarrow> bool" where
  "isIndex part = (strings_HasPrefix part ''['' \<and> strings_HasSuffix part '']'')"

text \<open>The body of the inner loop of \<open>flatten\<close>: one piece \<open>p\<close> against the segments
  collected so far. The write to \<open>newPath[len(newPath)-1]\<close> is guarded by
  \<open>len(newPath) > 0\<close>, so it is always in range.\<close>

definition flatten_piece :: "string \<Rightarrow> string list \<Rightarrow> string list" where
  "flatten_piece p newPath =
     (if p = CurrentField then newPath
      else if length newPath > 0 \<and> isIndex p
        then newPath[length newPath - 1 := (newPath ! (length newPath - 1)) @ p]
      else newPath @ [p])"

definition flatten :: "string list \<Rightarrow> string" where
  "flatten path =
     strings_Join
       (fold (\<lambda>part newPath. fold flatten_piece (strings_Split part (CHR ''.'')) newPath) path [])
       ''.''"

subsection \<open>The accumulator\<close>

text \<open>
  \<open>type FieldError struct { Message string; Paths []string; Details string;
  errors map[string]FieldError }\<close>. The struct contains itself through the map, so it is a
  datatype with the field names as selectors. A Go map is an association list with
  distinct keys; the map of a struct literal that does not set \<open>errors\<close> is the nil map
  \<open>None\<close>, which reads as empty and panics when written. A \<open>*FieldError\<close> is a
  \<open>FieldError option\<close> with \<open>None\<close> for nil. A nil slice and an empty slice are both
  \<open>[]\<close>: the code only takes their length, ranges over them and appends to them.
\<close>

datatype FieldError =
  FieldError (Message: string) (Paths: "string list") (Details: string)
    (errors: "(string \<times> FieldError) list option")

type_synonym gomap = "(string \<times> FieldError) list"

datatype panic = NilDereference | NilMapAssignment

text \<open>The zero value \<open>FieldError{}\<close>.\<close>

definition zero_FieldError :: FieldError where
  "zero_FieldError = FieldError [] [] [] None"

text \<open>Reading a map: a nil map has no entries.\<close>

definition entries :: "gomap option \<Rightarrow> gomap" where
  "entries m = (case m of None \<Rightarrow> [] | Some es \<Rightarrow> es)"

text \<open>\<open>m[k] = v\<close> on an allocated map: replace the value of an existing key, add the key
  otherwise.\<close>

fun store :: "gomap \<Rightarrow> string \<Rightarrow> FieldError \<Rightarrow> gomap" where
  "store [] k v = [(k, v)]"
| "store ((k', v') # es) k v = (if k' = k then (k, v) # es else (k', v') # store es k v)"

text \<open>\<open>m[k] = v\<close> on a map that may be nil: Go panics with "assignment to entry in nil
  map".\<close>

definition assign :: "gomap option \<Rightarrow> string \<Rightarrow> FieldError \<Rightarrow> panic + gomap option" where
  "assign m k v = (case m of None \<Rightarrow> Inl NilMapAssignment | Some es \<Rightarrow> Inr (Some (store es k v)))"

text \<open>
  Go leaves the order in which \<open>range\<close> visits a map unspecified. A schedule decides it:
  the entries of the map \<open>m\<close> are visited by ascending \<open>sched m k\<close>, entries of equal
  rank in the order of the list. Every order of the entries of a map (whose keys are
  distinct) is the order of some schedule (\<open>every_order_is_scheduled\<close> below), and what
  is proved for all schedules holds for every run. The schedule \<open>in_order\<close> visits the
  entries as listed.
\<close>

type_synonym schedule = "gomap \<Rightarrow> string \<Rightarrow> nat"

definition range_map :: "schedule \<Rightarrow> gomap \<Rightarrow> gomap" where
  "range_map sched m = sort_key (\<lambda>kv. sched m (fst kv)) m"

definition in_order :: schedule where
  "in_order m k = 0"

fun containsString :: "string list \<Rightarrow> string \<Rightarrow> bool" where
  "containsString [] s = False"
| "containsString (item # slice) s = (if item = s then True else containsString slice s)"

definition mergePaths :: "string list \<Rightarrow> string list \<Rightarrow> string list" where
  "mergePaths a b =
     fold (\<lambda>p newPaths. if containsString newPaths p = False then newPaths @ [p] else newPaths) b a"

text \<open>\<open>fmt.Sprintf("%s-%s", err.Message, err.Details)\<close> on the struct behind the
  pointer, and \<open>key\<close> itself, which dereferences its argument without a nil check.\<close>

definition key_string :: "FieldError \<Rightarrow> string" where
  "key_string err = Message err @ ''-'' @ Details err"

definition key :: "FieldError option \<Rightarrow> panic + string" where
  "key err = (case err of None \<Rightarrow> Inl NilDereference | Some e \<Rightarrow> Inr (key_string e))"

text \<open>The body of the inner loop of \<open>getNormalizedErrors\<close>: the entry \<open>k, err\<close> of a
  nested error against the map collected so far.\<close>

definition collect_entry :: "string \<times> FieldError \<Rightarrow> gomap \<Rightarrow> gomap" where
  "collect_entry kv m =
     (case map_of m (fst kv) of
        Some v \<Rightarrow>
          store m (fst kv)
            (FieldError (Message v) (mergePaths (Paths v) (Paths (snd kv))) (Details v) (errors v))
      | None \<Rightarrow> store m (fst kv) (snd kv))"

text \<open>The leaf entry a non-empty \<open>Message\<close> contributes; \<open>key(&err)\<close> is applied to the
  address of a local, which is never nil.\<close>

definition leaf_entries :: "FieldError \<Rightarrow> gomap" where
  "leaf_entries fe =
     (if Message fe \<noteq> ''''
      then (let err = FieldError (Message fe) (Paths fe) (Details fe) None
            in store [] (key_string err) err)
      else [])"

text \<open>\<open>getNormalizedErrors\<close>: nil for a nil receiver; otherwise a fresh map holding the
  leaf entry of the receiver, into which the normalized entries of every nested error are
  collected. Both loops range over a map.\<close>

function getNormalizedErrors :: "schedule \<Rightarrow> FieldError option \<Rightarrow> gomap option" where
  "getNormalizedErrors sched None = None"
| "getNormalizedErrors sched (Some (FieldError msg paths details errs)) =
     Some (fold
       (\<lambda>ke m. fold collect_entry
                  (range_map sched (entries (getNormalizedErrors sched (Some (snd ke))))) m)
       (range_map sched (entries errs))
       (leaf_entries (FieldError msg paths details errs)))"
  by pat_completeness auto
termination
proof (relation "measure (\<lambda>(sched, fe). case fe of None \<Rightarrow> 0 | Some f \<Rightarrow> size f)")
  show "wf (measure (\<lambda>(sched, fe). case fe of None \<Rightarrow> 0 | Some f \<Rightarrow> size f))"
    by simp
next
  fix sched :: schedule and msg paths details errs ke
  assume "ke \<in> set (range_map sched (entries errs))"
  then obtain es where es: "errs = Some es" "ke \<in> set es"
    by (cases errs) (auto simp: range_map_def entries_def)
  have nested: "ke \<in> set xs \<Longrightarrow> size (snd ke) < size (FieldError msg paths details (Some xs))" for xs
    by (induction xs) auto
  from nested [of es] es
  show "((sched, Some (snd ke)), (sched, Some (FieldError msg paths details errs)))
        \<in> measure (\<lambda>(sched, fe). case fe of None \<Rightarrow> 0 | Some f \<Rightarrow> size f)"
    by simp
qed

text \<open>
  The loop of \<open>Also\<close> over its arguments, on the map \<open>newErrs.errors\<close>. In
  \<open>if err, ok := newErrs.errors[k]; ok\<close> the variable \<open>err\<close> is the value the map holds
  under \<open>k\<close>: the stored entry when the key is present, the zero value otherwise. The
  argument \<open>e\<close> itself is used for its key only.
\<close>

fun Also_errs :: "FieldError option list \<Rightarrow> gomap option \<Rightarrow> panic + gomap option" where
  "Also_errs [] m = Inr m"
| "Also_errs (e # errs) m =
     (case key e of
        Inl p \<Rightarrow> Inl p
      | Inr k \<Rightarrow>
          (case map_of (entries m) k of
             Some err \<Rightarrow>
               (let newErr = err;
                    newErr = FieldError (Message newErr) (mergePaths (Paths newErr) (Paths err))
                               (Details newErr) (errors newErr)
                in case assign m k newErr of Inl p \<Rightarrow> Inl p | Inr m' \<Rightarrow> Also_errs errs m')
           | None \<Rightarrow>
               (let err = zero_FieldError
                in case assign m k err of Inl p \<Rightarrow> Inl p | Inr m' \<Rightarrow> Also_errs errs m')))"

definition Also :: "schedule \<Rightarrow> FieldError option \<Rightarrow> FieldError option list \<Rightarrow> panic + FieldError option" where
  "Also sched fe errs =
     (let newErrs_errors = (if fe \<noteq> None then getNormalizedErrors sched fe else None)
      in case Also_errs errs newErrs_errors of
           Inl p \<Rightarrow> Inl p
         | Inr m \<Rightarrow> if length (entries m) = 0 then Inr None else Inr (Some (FieldError [] [] [] m)))"

text \<open>The loop of \<open>ViaField\<close> over the normalized entries, with \<open>newErr\<close> as its state.
  \<open>append(prefix, oldPath)\<close> is flattened at once, so sharing of the backing array of
  \<open>prefix\<close> (here \<open>pre\<close>) between iterations is not observable.\<close>

fun ViaField_entries :: "schedule \<Rightarrow> string list \<Rightarrow> gomap \<Rightarrow> FieldError option \<Rightarrow> panic + FieldError option" where
  "ViaField_entries sched pre [] newErr = Inr newErr"
| "ViaField_entries sched pre (ke # rest) newErr =
     (let e = snd ke;
          newPaths = map (\<lambda>oldPath. flatten (pre @ [oldPath])) (Paths e);
          e = FieldError (Message e) newPaths (Details e) (errors e)
      in case Also sched newErr [Some e] of
           Inl p \<Rightarrow> Inl p
         | Inr newErr' \<Rightarrow> ViaField_entries sched pre rest newErr')"

definition ViaField :: "schedule \<Rightarrow> FieldError option \<Rightarrow> string list \<Rightarrow> panic + FieldError option" where
  "ViaField sched fe pre =
     (if fe = None then Inr None
      else ViaField_entries sched pre
             (range_map sched (entries (getNormalizedErrors sched fe))) (Some zero_FieldError))"

text \<open>\<open>fmt.Sprintf("[%d]", index)\<close>: the decimal digits of a Go \<open>int\<close>, with a minus sign
  for a negative one.\<close>

function decimal :: "nat \<Rightarrow> string" where
  "decimal n = (if n < 10 then [char_of (48 + n)] else decimal (n div 10) @ [char_of (48 + n mod 10)])"
  by pat_completeness auto
termination
  by (relation "measure (\<lambda>n. n)") auto

definition asIndex :: "int \<Rightarrow> string" where
  "asIndex index =
     ''['' @ (if index < 0 then ''-'' @ decimal (nat (- index)) else decimal (nat index)) @ '']''"

definition asKey :: "string \<Rightarrow> string" where
  "asKey k = ''['' @ k @ '']''"

definition ViaIndex :: "schedule \<Rightarrow> FieldError option \<Rightarrow> int \<Rightarrow> panic + FieldError option" where
  "ViaIndex sched fe index = ViaField sched fe [asIndex index]"

definition ViaFieldIndex :: "schedule \<Rightarrow> FieldError option \<Rightarrow> string \<Rightarrow> int \<Rightarrow> panic + FieldError option" where
  "ViaFieldIndex sched fe field index =
     (case ViaIndex sched fe index of Inl p \<Rightarrow> Inl p | Inr fe' \<Rightarrow> ViaField sched fe' [field])"

definition ViaKey :: "schedule \<Rightarrow> FieldError option \<Rightarrow> string \<Rightarrow> panic + FieldError option" where
  "ViaKey sched fe k = ViaField sched fe [asKey k]"

definition ViaFieldKey :: "schedule \<Rightarrow> FieldError option \<Rightarrow> string \<Rightarrow> string \<Rightarrow> panic + FieldError option" where
  "ViaFieldKey sched fe field k =
     (case ViaKey sched fe k of Inl p \<Rightarrow> Inl p | Inr fe' \<Rightarrow> ViaField sched fe' [field])"

text \<open>
  \<open>Error\<close>. Its first statement evaluates \<open>len(fe.errors)\<close>, a field read through the
  receiver, before anything else. One rendered entry is \<open>render\<close>: the paths sorted by
  \<open>sort.Slice\<close> with \<open><\<close> (for strings the result does not depend on the algorithm),
  then \<open>"%v: %v"\<close> or \<open>"%v: %v\n%v"\<close>. The entries are sorted by \<open>Message\<close> with
  \<open>sort.Slice\<close>, which is not stable; as the entries reach it in the order the schedule
  chose, a stable sort after an arbitrary schedule yields every order the unstable one can.
  A slice is the list of its elements: the path slices of different entries are taken not
  to overlap in memory, so that \<open>sort.Slice(e.Paths, ...)\<close>, which sorts in place,
  leaves the paths of the other entries as they are.
\<close>

definition render :: "FieldError \<Rightarrow> string" where
  "render e =
     (let paths = sort (Paths e)
      in if Details e = ''''
         then Message e @ '': '' @ strings_Join paths '', ''
         else Message e @ '': '' @ strings_Join paths '', '' @ [CHR 0x0A] @ Details e)"

definition Error :: "schedule \<Rightarrow> FieldError option \<Rightarrow> panic + string" where
  "Error sched fe =
     (if fe = None then Inl NilDereference
      else (let errors = map snd (range_map sched (entries (getNormalizedErrors sched fe)));
                errors = sort_key Message errors
            in Inr (strings_Join (map render errors) [CHR 0x0A])))"

subsection \<open>Constructors\<close>




definition ErrMissingField :: "string list \<Rightarrow> FieldError option" where
  "ErrMissingField fieldPaths = Some (FieldError ''missing field(s)'' fieldPaths [] None)"






subsection \<open>Operations in sequence\<close>

text \<open>\<open>Error()\<close> called on what an operation returned: a panic of the operation is the
  outcome.\<close>

definition Error_of :: "schedule \<Rightarrow> panic + FieldError option \<Rightarrow> panic + string" where
  "Error_of sched r = (case r of Inl p \<Rightarrow> Inl p | Inr fe \<Rightarrow> Error sched fe)"

text \<open>\<open>a.Also(b).ViaField(x...)\<close> and \<open>a.ViaField(x...).Also(b.ViaField(x...))\<close>; each
  call ranges over its maps by a schedule of its own.\<close>

definition Also_then_ViaField ::
  "schedule \<Rightarrow> schedule \<Rightarrow> FieldError option \<Rightarrow> FieldError option \<Rightarrow> string list
    \<Rightarrow> panic + FieldError option" where
  "Also_then_ViaField s1 s2 a b x =
     (case Also s1 a [b] of Inl p \<Rightarrow> Inl p | Inr ab \<Rightarrow> ViaField s2 ab x)"

definition ViaField_then_Also ::
  "schedule \<Rightarrow> schedule \<Rightarrow> schedule \<Rightarrow> FieldError option \<Rightarrow> FieldError option \<Rightarrow> string list
    \<Rightarrow> panic + FieldError option" where
  "ViaField_then_Also s1 s2 s3 a b x =
     (case ViaField s1 a x of
        Inl p \<Rightarrow> Inl p
      | Inr a' \<Rightarrow> (case ViaField s2 b x of Inl p \<Rightarrow> Inl p | Inr b' \<Rightarrow> Also s3 a' [b']))"

section \<open>The specification's wording\<close>

text \<open>
  What the specification says of flattening and of rendering, written from its words and
  with none of the definitions above: joining with a separator, splitting on dots, the test
  for a bracketed piece, the empty string as the current-field sentinel.
\<close>

text \<open>"Joined by" a separator.\<close>

fun separated :: "string \<Rightarrow> string list \<Rightarrow> string" where
  "separated sep [] = []"
| "separated sep (x # xs) = x @ concat (map (\<lambda>y. sep @ y) xs)"

text \<open>"Splits each fragment on dots": the first piece runs to the first dot, the other
  pieces are those of the rest.\<close>

fun dot_pieces :: "string \<Rightarrow> string list" where
  "dot_pieces [] = [[]]"
| "dot_pieces (c # s) =
     (if c = CHR ''.'' then [] # dot_pieces s
      else (case dot_pieces s of [] \<Rightarrow> [[c]] | p # ps \<Rightarrow> (c # p) # ps))"

text \<open>"A piece that begins with \<open>[\<close> and ends with \<open>]\<close>".\<close>

definition bracketed :: "string \<Rightarrow> bool" where
  "bracketed p = (p \<noteq> [] \<and> hd p = CHR ''['' \<and> last p = CHR '']'')"

text \<open>A bracketed piece "is appended to the immediately preceding retained piece with no
  dot when such a piece exists (otherwise it starts its own segment)": \<open>attach_indices seg ps\<close>
  is the list of segments when \<open>seg\<close> is the segment before the pieces \<open>ps\<close>.\<close>

fun attach_indices :: "string \<Rightarrow> string list \<Rightarrow> string list" where
  "attach_indices seg [] = [seg]"
| "attach_indices seg (p # ps) =
     (if bracketed p then attach_indices (seg @ p) ps else seg # attach_indices p ps)"

fun spec_segments :: "string list \<Rightarrow> string list" where
  "spec_segments [] = []"
| "spec_segments (p # ps) = attach_indices p ps"

definition spec_flatten :: "string list \<Rightarrow> string" where
  "spec_flatten path =
     separated ''.''
       (spec_segments (filter (\<lambda>p. p \<noteq> '''') (concat (map dot_pieces path))))"


text \<open>One rendered entry: the message, a colon and a space, the sorted paths joined by a
  comma and a space, and the details after a newline when there are any.\<close>

definition spec_entry :: "FieldError \<Rightarrow> string" where
  "spec_entry e =
     Message e @ '': '' @ separated '', '' (sort (Paths e))
       @ (if Details e = '''' then '''' else [CHR 0x0A] @ Details e)"

text \<open>An accumulator that holds nothing: no message, no paths, no details, and a map
  whose values are all the zero value.\<close>

definition holds_nothing :: "FieldError \<Rightarrow> bool" where
  "holds_nothing v =
     (Message v = [] \<and> Paths v = [] \<and> Details v = []
      \<and> list_all (\<lambda>ke. snd ke = zero_FieldError) (entries (errors v)))"

section \<open>Properties\<close>

subsection \<open>The library functions against the specification's wording\<close>

lemma strings_Join_separated: "strings_Join xs sep = separated sep xs"
  by (induction xs sep rule: strings_Join.induct) simp_all

lemma dot_pieces_not_Nil: "dot_pieces s \<noteq> []"
  by (induction s) (auto split: list.split)

lemma split_byte_dot_pieces:
  "split_byte (CHR ''.'') cur s = (cur @ hd (dot_pieces s)) # tl (dot_pieces s)"
proof (induction s arbitrary: cur)
  case Nil
  then show ?case by simp
next
  case (Cons c s)
  obtain p ps where "dot_pieces s = p # ps"
    using dot_pieces_not_Nil [of s] by (cases "dot_pieces s") auto
  then show ?case
    using Cons.IH [of "cur @ [c]"] Cons.IH [of "[]"] by simp
qed

lemma strings_Split_dot_pieces: "strings_Split s (CHR ''.'') = dot_pieces s"
  using dot_pieces_not_Nil [of s] by (simp add: strings_Split_def split_byte_dot_pieces)

lemma dot_pieces_no_dot: "list_all (\<lambda>p. CHR ''.'' \<notin> set p) (dot_pieces s)"
  by (induction s) (auto split: list.split)

lemma separated_dot_pieces: "separated ''.'' (dot_pieces s) = s"
proof (induction s)
  case Nil
  then show ?case by simp
next
  case (Cons c s)
  obtain p ps where "dot_pieces s = p # ps"
    using dot_pieces_not_Nil [of s] by (cases "dot_pieces s") auto
  with Cons show ?case by simp
qed

lemma isIndex_bracketed: "isIndex p = bracketed p"
proof (cases p rule: rev_cases)
  case Nil
  then show ?thesis
    by (simp add: isIndex_def bracketed_def strings_HasPrefix_def strings_HasSuffix_def)
next
  case (snoc ys y)
  then show ?thesis
    by (cases ys)
       (auto simp: isIndex_def bracketed_def strings_HasPrefix_def strings_HasSuffix_def suffix_def)
qed

subsection \<open>Flattening\<close>

lemma fold_flatten_piece_filter:
  "fold flatten_piece ps acc = fold flatten_piece (filter (\<lambda>p. p \<noteq> '''') ps) acc"
  by (induction ps arbitrary: acc) (simp_all add: flatten_piece_def CurrentField_def)

lemma fold_flatten_piece_attach:
  "list_all (\<lambda>p. p \<noteq> '''') ps \<Longrightarrow>
   fold flatten_piece ps (acc @ [seg]) = acc @ attach_indices seg ps"
proof (induction ps arbitrary: acc seg)
  case Nil
  then show ?case by simp
next
  case (Cons p ps)
  show ?case
  proof (cases "bracketed p")
    case True
    then have "flatten_piece p (acc @ [seg]) = acc @ [seg @ p]"
      using Cons.prems by (simp add: flatten_piece_def CurrentField_def isIndex_bracketed)
    then show ?thesis using Cons True by simp
  next
    case False
    then have "flatten_piece p (acc @ [seg]) = (acc @ [seg]) @ [p]"
      using Cons.prems by (simp add: flatten_piece_def CurrentField_def isIndex_bracketed)
    then show ?thesis using Cons.IH [of "acc @ [seg]" p] Cons.prems False by simp
  qed
qed

lemma fold_flatten_piece_segments:
  assumes "list_all (\<lambda>p. p \<noteq> '''') ps"
  shows "fold flatten_piece ps [] = spec_segments ps"
proof (cases ps)
  case Nil
  then show ?thesis by simp
next
  case (Cons p ps')
  then have "flatten_piece p [] = [] @ [p]"
    using assms by (simp add: flatten_piece_def CurrentField_def)
  then show ?thesis
    using fold_flatten_piece_attach [of ps' "[]" p] assms Cons by simp
qed

lemma fold_nested_concat:
  "fold (\<lambda>part acc. fold f (g part) acc) path acc = fold f (concat (map g path)) acc"
  by (induction path arbitrary: acc) simp_all

lemma flatten_spec_flatten: "flatten path = spec_flatten path"
proof -
  let ?pieces = "concat (map dot_pieces path)"
  have "fold (\<lambda>part newPath. fold flatten_piece (strings_Split part (CHR ''.'')) newPath) path []
        = fold flatten_piece ?pieces []"
    by (simp add: strings_Split_dot_pieces fold_nested_concat)
  also have "\<dots> = fold flatten_piece (filter (\<lambda>p. p \<noteq> '''') ?pieces) []"
    by (rule fold_flatten_piece_filter)
  also have "\<dots> = spec_segments (filter (\<lambda>p. p \<noteq> '''') ?pieces)"
    by (rule fold_flatten_piece_segments) (simp add: list_all_iff)
  finally show ?thesis
    by (simp add: flatten_def spec_flatten_def strings_Join_separated)
qed

lemmas flatten_eval = flatten_def strings_Split_def flatten_piece_def isIndex_def CurrentField_def
  strings_HasPrefix_def strings_HasSuffix_def suffix_to_prefix

text \<open>
  Claim C5. For every list of path fragments, \<open>flatten\<close> splits each fragment on dots (the
  pieces hold no dot and, joined by dots, give the fragment back), drops the pieces equal to
  the empty current-field sentinel, appends a piece that begins with \<open>[\<close> and ends with
  \<open>]\<close> to the retained piece immediately before it when there is one (otherwise the piece
  starts a segment of its own), and joins the segments with dots. On
  \<open>["foo","[1]","[0]","bar"]\<close> it yields \<open>foo[1][0].bar\<close> and on \<open>["[0]","foo","bar"]\<close>
  it yields \<open>[0].foo.bar\<close>; the further instances have a fragment with dots in it, empty
  pieces, and pieces with one bracket only.
\<close>

theorem flatten_meets_spec:
  "flatten path = spec_flatten path
   \<and> strings_Split s (CHR ''.'') \<noteq> []
   \<and> list_all (\<lambda>p. CHR ''.'' \<notin> set p) (strings_Split s (CHR ''.''))
   \<and> separated ''.'' (strings_Split s (CHR ''.'')) = s
   \<and> flatten [''foo'', ''[1]'', ''[0]'', ''bar''] = ''foo[1][0].bar''
   \<and> flatten [''[0]'', ''foo'', ''bar''] = ''[0].foo.bar''
   \<and> flatten [''foo'', ''bar.[0].baz''] = ''foo.bar[0].baz''
   \<and> flatten [''a..b'', '''', ''c.''] = ''a.b.c''
   \<and> flatten [''foo'', ''''] = ''foo''
   \<and> flatten [''foo'', ''[x''] = ''foo.[x''
   \<and> flatten [''foo'', ''x]''] = ''foo.x]''
   \<and> flatten [''foo'', ''[a.b]''] = ''foo.[a.b]''
   \<and> flatten [''foo'', ''[]''] = ''foo[]''
   \<and> flatten [''foo'', ''[''] = ''foo.[''"
proof -
  have split: "strings_Split s (CHR ''.'') \<noteq> []"
    "list_all (\<lambda>p. CHR ''.'' \<notin> set p) (strings_Split s (CHR ''.''))"
    "separated ''.'' (strings_Split s (CHR ''.'')) = s"
    by (simp_all add: strings_Split_dot_pieces dot_pieces_not_Nil dot_pieces_no_dot
        separated_dot_pieces)
  have ex1: "flatten [''foo'', ''[1]'', ''[0]'', ''bar''] = ''foo[1][0].bar''"
    by (simp add: flatten_eval)
  have ex2: "flatten [''[0]'', ''foo'', ''bar''] = ''[0].foo.bar''"
    by (simp add: flatten_eval)
  have ex3: "flatten [''foo'', ''bar.[0].baz''] = ''foo.bar[0].baz''"
    by (simp add: flatten_eval)
  have ex4: "flatten [''a..b'', '''', ''c.''] = ''a.b.c''"
    by (simp add: flatten_eval)
  have ex5: "flatten [''foo'', ''''] = ''foo''"
    by (simp add: flatten_eval)
  have ex6: "flatten [''foo'', ''[x''] = ''foo.[x''"
    by (simp add: flatten_eval)
  have ex7: "flatten [''foo'', ''x]''] = ''foo.x]''"
    by (simp add: flatten_eval)
  have ex8: "flatten [''foo'', ''[a.b]''] = ''foo.[a.b]''"
    by (simp add: flatten_eval)
  have ex9: "flatten [''foo'', ''[]''] = ''foo[]''"
    by (simp add: flatten_eval)
  have ex10: "flatten [''foo'', ''[''] = ''foo.[''"
    by (simp add: flatten_eval)
  from flatten_spec_flatten split ex1 ex2 ex3 ex4 ex5 ex6 ex7 ex8 ex9 ex10
  show ?thesis by blast
qed

subsection \<open>Ranging over a map\<close>

lemma range_map_Nil [simp]: "range_map sched [] = []"
  by (simp add: range_map_def)

lemma range_map_single [simp]: "range_map sched [x] = [x]"
  by (simp add: range_map_def)

lemma set_range_map [simp]: "set (range_map sched m) = set m"
  by (simp add: range_map_def)

lemma mset_range_map [simp]: "mset (range_map sched m) = mset m"
  by (simp add: range_map_def)

lemma range_map_in_order [simp]: "range_map in_order m = m"
  by (simp add: range_map_def in_order_def sort_key_const)

text \<open>Every order of the entries of a map is the order of some schedule.\<close>

lemma rank_nth:
  "distinct (map f xs) \<Longrightarrow> i < length xs \<Longrightarrow>
   length (takeWhile (\<lambda>x. f x \<noteq> f (xs ! i)) xs) = i"
proof (induction xs arbitrary: i)
  case Nil
  then show ?case by simp
next
  case (Cons x xs)
  then show ?case
    by (cases i) auto
qed

lemma sorted_by_rank:
  assumes "distinct (map f xs)"
  shows "sorted (map (\<lambda>x. length (takeWhile (\<lambda>y. f y \<noteq> f x) xs)) xs)"
proof -
  have "map (\<lambda>x. length (takeWhile (\<lambda>y. f y \<noteq> f x) xs)) xs = [0..<length xs]"
    using assms by (intro nth_equalityI) (simp_all add: rank_nth)
  then show ?thesis by simp
qed

lemma filter_only:
  "distinct ys \<Longrightarrow> k \<in> set ys \<Longrightarrow> (\<And>x. x \<in> set ys \<Longrightarrow> P x \<longleftrightarrow> x = k) \<Longrightarrow> filter P ys = [k]"
proof (induction ys)
  case Nil
  then show ?case by simp
next
  case (Cons y ys)
  show ?case
  proof (cases "y = k")
    case True
    then have "filter P ys = []"
      using Cons.prems by (auto simp: filter_empty_conv)
    with True Cons.prems show ?thesis by simp
  next
    case False
    with Cons show ?thesis by auto
  qed
qed

lemma every_order_is_scheduled:
  assumes "distinct (map fst m)" and "mset xs = mset m"
  shows "\<exists>sched. range_map sched m = xs"
proof -
  define rank where "rank = (\<lambda>k. length (takeWhile (\<lambda>y. fst y \<noteq> k) xs))"
  have dist: "distinct (map fst xs)"
    using assms by (metis mset_eq_imp_distinct_iff mset_map)
  have sets: "set xs = set m"
    using assms(2) by (rule mset_eq_setD)
  have dxs: "distinct xs"
    using dist by (simp add: distinct_map)
  have rank_at: "rank (fst (xs ! i)) = i" if "i < length xs" for i
    unfolding rank_def using dist that by (rule rank_nth)
  have inj: "rank (fst k) = rank (fst x) \<longleftrightarrow> x = k" if "k \<in> set xs" "x \<in> set xs" for k x
  proof -
    from that(1) obtain i where i: "i < length xs" "k = xs ! i"
      by (metis in_set_conv_nth)
    from that(2) obtain j where j: "j < length xs" "x = xs ! j"
      by (metis in_set_conv_nth)
    have "rank (fst k) = rank (fst x) \<longleftrightarrow> i = j"
      unfolding i(2) j(2) using rank_at [OF i(1)] rank_at [OF j(1)] by simp
    also have "\<dots> \<longleftrightarrow> x = k"
      unfolding i(2) j(2) using nth_eq_iff_index_eq [OF dxs j(1) i(1)] by blast
    finally show ?thesis .
  qed
  have "sort_key (\<lambda>kv. rank (fst kv)) m = xs"
  proof (rule properties_for_sort_key)
    show "mset xs = mset m" by fact
    show "sorted (map (\<lambda>kv. rank (fst kv)) xs)"
      using sorted_by_rank [OF dist] by (simp add: rank_def)
    fix k assume k: "k \<in> set xs"
    have "filter (\<lambda>x. rank (fst k) = rank (fst x)) xs = [k]"
      using dist k inj by (intro filter_only) (auto simp: distinct_map)
    moreover have "filter (\<lambda>x. rank (fst k) = rank (fst x)) m = [k]"
      using assms(1) k inj sets by (intro filter_only) (auto simp: distinct_map)
    ultimately show "filter (\<lambda>x. rank (fst k) = rank (fst x)) xs
        = filter (\<lambda>x. rank (fst k) = rank (fst x)) m"
      by simp
  qed
  then have "range_map (\<lambda>_. rank) m = xs"
    by (simp add: range_map_def)
  then show ?thesis by blast
qed

subsection \<open>What the operations return\<close>

lemmas eval_defs = Also_def ViaField_def Error_def Error_of_def entries_def leaf_entries_def
  key_def key_string_def collect_entry_def assign_def zero_FieldError_def mergePaths_def
  render_def Also_then_ViaField_def ViaField_then_Also_def

lemma store_not_Nil [simp]: "store m k v \<noteq> []"
  by (cases m) (auto split: if_splits)

lemma normalized_zero [simp]: "getNormalizedErrors sched (Some zero_FieldError) = Some []"
  by (simp add: zero_FieldError_def entries_def leaf_entries_def)

lemma fold_zeros:
  "list_all (\<lambda>ke. snd ke = zero_FieldError) es \<Longrightarrow>
   fold (\<lambda>ke m. fold collect_entry
                  (range_map sched (entries (getNormalizedErrors sched (Some (snd ke))))) m) es acc = acc"
  by (induction es arbitrary: acc) (simp_all add: entries_def)

lemma normalized_holds_nothing:
  "holds_nothing v \<Longrightarrow> getNormalizedErrors sched (Some v) = Some []"
  by (cases v) (simp add: holds_nothing_def leaf_entries_def fold_zeros list_all_iff)

lemma Also_nothing_normalized:
  "getNormalizedErrors sched (Some n) = Some [] \<Longrightarrow>
   Also sched (Some n) [Some e]
     = Inr (Some (FieldError [] [] [] (Some [(key_string e, zero_FieldError)])))"
  by (simp add: Also_def key_def entries_def assign_def)

lemma ViaField_entries_holds_nothing:
  "holds_nothing n \<Longrightarrow>
   \<exists>v. ViaField_entries sched pre es (Some n) = Inr (Some v) \<and> holds_nothing v"
proof (induction es arbitrary: n)
  case Nil
  then show ?case by simp
next
  case (Cons ke es)
  let ?e = "FieldError (Message (snd ke)) (map (\<lambda>oldPath. flatten (pre @ [oldPath])) (Paths (snd ke)))
              (Details (snd ke)) (errors (snd ke))"
  let ?n' = "FieldError [] [] [] (Some [(key_string ?e, zero_FieldError)])"
  have step: "Also sched (Some n) [Some ?e] = Inr (Some ?n')"
    using Cons.prems by (intro Also_nothing_normalized normalized_holds_nothing)
  have "holds_nothing ?n'"
    by (simp add: holds_nothing_def entries_def)
  from Cons.IH [OF this] step show ?case
    by (simp add: Let_def)
qed

text \<open>Whatever a non-nil accumulator holds, \<open>ViaField\<close> returns a non-nil accumulator
  that holds nothing: every entry it passes to \<open>Also\<close> is stored as the zero value.\<close>

lemma ViaField_holds_nothing:
  "\<exists>v. ViaField sched (Some fe) pre = Inr (Some v) \<and> holds_nothing v"
proof -
  have "holds_nothing zero_FieldError"
    by (simp add: holds_nothing_def zero_FieldError_def entries_def)
  from ViaField_entries_holds_nothing [OF this] show ?thesis
    by (simp add: ViaField_def)
qed

lemma ViaField_nil [simp]: "ViaField sched None pre = Inr None"
  by (simp add: ViaField_def)

lemma ViaField_nil_iff: "ViaField sched fe pre = Inr None \<longleftrightarrow> fe = None"
proof (cases fe)
  case None
  then show ?thesis by simp
next
  case (Some f)
  obtain v where "ViaField sched (Some f) pre = Inr (Some v)"
    using ViaField_holds_nothing by blast
  with Some show ?thesis by simp
qed

lemma Error_allocated: "\<exists>s. Error sched (Some fe) = Inr s"
  by (simp add: Error_def)

subsection \<open>Combining\<close>

text \<open>
  Claim C1. Two leaf errors with the same non-empty message, the same details and disjoint
  paths, combined with \<open>Also\<close>, should render as one entry with the union of their paths.
  On the case "simple" of \<open>TestFlattenFieldErrors\<close> (paths \<open>bar\<close> and \<open>foo\<close>, wanted
  \<open>A simple error message: bar, foo\<close>) the code keeps the receiver's entry as it is: the
  branch for a key that is present merges the stored entry with itself, and the path of
  the argument is lost.
\<close>

theorem Also_same_key_loses_argument_paths:
  "Also sched (Some (FieldError ''A simple error message'' [''bar''] [] None))
       [Some (FieldError ''A simple error message'' [''foo''] [] None)]
     = Inr (Some (FieldError [] [] []
         (Some [(''A simple error message-'',
                 FieldError ''A simple error message'' [''bar''] [] None)])))
   \<and> Error_of sched'
        (Also sched (Some (FieldError ''A simple error message'' [''bar''] [] None))
           [Some (FieldError ''A simple error message'' [''foo''] [] None)])
     = Inr ''A simple error message: bar''"
  by (simp add: eval_defs)

text \<open>
  Claim C2. \<open>Also\<close> should treat nil and empty accumulators as neutral. In the code,
  \<open>key\<close> dereferences a nil argument, whatever the receiver; a nil receiver leaves the map
  nil, and the first argument stored into it panics; an empty argument on an empty receiver
  leaves a non-nil accumulator with the key \<open>-\<close>.
\<close>

theorem Also_nil_panics:
  "Also sched None [None] = Inl NilDereference
   \<and> Also sched (Some x) [None] = Inl NilDereference
   \<and> Also sched None [Some x] = Inl NilMapAssignment
   \<and> Also sched (Some zero_FieldError) [Some zero_FieldError]
       = Inr (Some (FieldError [] [] [] (Some [(''-'', zero_FieldError)])))"
  by (simp add: eval_defs)

subsection \<open>Prefixing\<close>

text \<open>
  Claim C3. \<open>ErrMissingField("foo","bar").ViaField("baz")\<close> should render as
  \<open>missing field(s): baz.bar, baz.foo\<close>. In the code \<open>ViaField\<close> hands the entry with
  its new paths to \<open>Also\<close>, which stores the zero value under the entry's key: the result
  holds no entry and renders as the empty string.
\<close>

theorem ViaField_missing_field_renders_empty:
  "ViaField sched (ErrMissingField [''foo'', ''bar'']) [''baz'']
     = Inr (Some (FieldError [] [] [] (Some [(''missing field(s)-'', zero_FieldError)])))
   \<and> Error_of sched' (ViaField sched (ErrMissingField [''foo'', ''bar'']) [''baz'']) = Inr ''''"
  by (simp add: eval_defs ErrMissingField_def)

subsection \<open>Panics\<close>

text \<open>
  Claim C4. No operation should panic, and \<open>Error()\<close> on a nil accumulator should be the
  empty string. The prefix operations are defined on a nil receiver and never panic, and
  \<open>Error\<close> returns on every non-nil receiver; but \<open>Error\<close> reads \<open>fe.errors\<close> through a
  nil receiver and panics, and \<open>Also\<close> panics on a nil argument and on a nil receiver with
  an argument.
\<close>

theorem Error_nil_receiver_panics:
  "Error sched None = Inl NilDereference
   \<and> Also sched fe [None] = Inl NilDereference
   \<and> Also sched None [Some x] = Inl NilMapAssignment
   \<and> ViaField sched None pre = Inr None
   \<and> ViaIndex sched None i = Inr None
   \<and> ViaKey sched None k = Inr None
   \<and> ViaFieldIndex sched None field i = Inr None
   \<and> ViaFieldKey sched None field k = Inr None
   \<and> (\<exists>v. ViaField sched (Some f) pre = Inr (Some v))
   \<and> (\<exists>s. Error sched (Some f) = Inr s)"
proof -
  have "\<exists>v. ViaField sched (Some f) pre = Inr (Some v)"
    using ViaField_holds_nothing by blast
  moreover have "Also sched fe [None] = Inl NilDereference"
    by (simp add: Also_def key_def)
  ultimately show ?thesis
    by (simp add: Error_def Also_def key_def entries_def assign_def ViaIndex_def ViaKey_def
        ViaFieldIndex_def ViaFieldKey_def)
qed

subsection \<open>Prefixing and combining\<close>

text \<open>
  Claim C6. \<open>a.Also(b).ViaField(x...)\<close> should yield the same flattened, combined result
  as \<open>a.ViaField(x...).Also(b.ViaField(x...))\<close>. On the case "simple" of \<open>TestAlso\<close>
  (wanted: \<open>also this: foo[A][B][C].woo\<close> and \<open>hear me roar: foo[A][B][C].bar\<close>) the two
  sides are different accumulators, the first with the key \<open>hear me roar-\<close> and the second
  with the key \<open>-\<close>, both holding the zero value only; neither holds a flattened path or a
  combined entry, and both render as the empty string.
\<close>

theorem ViaField_and_Also_lose_entries:
  "Also_then_ViaField s1 s2
       (Some (FieldError ''hear me roar'' [''bar''] [] None))
       (Some (FieldError ''also this'' [''woo''] [] None))
       [''foo'', ''[A]'', ''[B]'', ''[C]'']
     = Inr (Some (FieldError [] [] [] (Some [(''hear me roar-'', zero_FieldError)])))
   \<and> ViaField_then_Also s3 s4 s5
       (Some (FieldError ''hear me roar'' [''bar''] [] None))
       (Some (FieldError ''also this'' [''woo''] [] None))
       [''foo'', ''[A]'', ''[B]'', ''[C]'']
     = Inr (Some (FieldError [] [] [] (Some [(''-'', zero_FieldError)])))
   \<and> Error s6 (Some (FieldError [] [] [] (Some [(''hear me roar-'', zero_FieldError)]))) = Inr ''''
   \<and> Error s6 (Some (FieldError [] [] [] (Some [(''-'', zero_FieldError)]))) = Inr ''''"
proof -
  let ?a = "FieldError ''hear me roar'' [''bar''] [] None"
  let ?b = "FieldError ''also this'' [''woo''] [] None"
  let ?ab = "FieldError [] [] [] (Some [(''hear me roar-'', ?a), (''also this-'', zero_FieldError)])"
  have combined: "Also s1 (Some ?a) [Some ?b] = Inr (Some ?ab)"
    by (simp add: eval_defs)
  have norm: "getNormalizedErrors s2 (Some ?ab) = Some [(''hear me roar-'', ?a)]"
    by (simp add: range_map_def entries_def leaf_entries_def collect_entry_def zero_FieldError_def
        key_string_def)
  have lhs: "ViaField s2 (Some ?ab) [''foo'', ''[A]'', ''[B]'', ''[C]'']
      = Inr (Some (FieldError [] [] [] (Some [(''hear me roar-'', zero_FieldError)])))"
    unfolding ViaField_def norm by (simp add: eval_defs)
  have rhs: "ViaField_then_Also s3 s4 s5 (Some ?a) (Some ?b) [''foo'', ''[A]'', ''[B]'', ''[C]'']
      = Inr (Some (FieldError [] [] [] (Some [(''-'', zero_FieldError)])))"
    by (simp add: eval_defs)
  have "Error s6 (Some (FieldError [] [] [] (Some [(''hear me roar-'', zero_FieldError)]))) = Inr ''''"
    "Error s6 (Some (FieldError [] [] [] (Some [(''-'', zero_FieldError)]))) = Inr ''''"
    by (simp_all add: eval_defs)
  with combined lhs rhs show ?thesis
    by (simp add: Also_then_ViaField_def)
qed

subsection \<open>Constructors and rendering\<close>






text \<open>
  Claim C8. For every non-nil accumulator, \<open>Error()\<close> is the normalized entries in some
  order that is ascending by message, each rendered as the message, a colon and a space and
  the entry's paths sorted ascending and joined by a comma and a space, with non-empty
  details after a newline, all joined by newlines. The instance has the messages out of
  order, with an upper-case letter before the lower-case ones, unsorted paths, and details.
\<close>

theorem Error_sorts_and_renders:
  "(\<exists>es. mset es = mset (map snd (entries (getNormalizedErrors sched (Some fe))))
       \<and> sorted (map Message es)
       \<and> Error sched (Some fe) = Inr (separated [CHR 0x0A] (map spec_entry es)))
   \<and> Error in_order (Some (FieldError [] [] []
        (Some [(''k1'', FieldError ''this error'' [''foo'', ''bar''] [] None),
               (''k2'', FieldError ''another'' [''right'', ''left''] ''more details'' None),
               (''k3'', FieldError ''An alpha error message'' [''B'', ''A'', ''C''] [] None)])))
       = Inr (''An alpha error message: A, B, C'' @ [CHR 0x0A]
              @ ''another: left, right'' @ [CHR 0x0A] @ ''more details'' @ [CHR 0x0A]
              @ ''this error: bar, foo'')"
proof -
  let ?es = "sort_key Message (map snd (range_map sched (entries (getNormalizedErrors sched (Some fe)))))"
  have "mset ?es = mset (map snd (entries (getNormalizedErrors sched (Some fe))))"
    by simp
  moreover have "sorted (map Message ?es)"
    by (rule sorted_sort_key)
  moreover have "render = spec_entry"
    by (rule ext) (simp add: render_def spec_entry_def strings_Join_separated)
  then have "Error sched (Some fe) = Inr (separated [CHR 0x0A] (map spec_entry ?es))"
    by (simp add: Error_def strings_Join_separated)
  ultimately have general: "\<exists>es. mset es = mset (map snd (entries (getNormalizedErrors sched (Some fe))))
       \<and> sorted (map Message es)
       \<and> Error sched (Some fe) = Inr (separated [CHR 0x0A] (map spec_entry es))"
    by blast
  have "Error in_order (Some (FieldError [] [] []
        (Some [(''k1'', FieldError ''this error'' [''foo'', ''bar''] [] None),
               (''k2'', FieldError ''another'' [''right'', ''left''] ''more details'' None),
               (''k3'', FieldError ''An alpha error message'' [''B'', ''A'', ''C''] [] None)])))
       = Inr (''An alpha error message: A, B, C'' @ [CHR 0x0A]
              @ ''another: left, right'' @ [CHR 0x0A] @ ''more details'' @ [CHR 0x0A]
              @ ''this error: bar, foo'')"
    by (simp add: Error_def entries_def leaf_entries_def key_string_def collect_entry_def
        render_def)
  with general show ?thesis by blast
qed

subsection \<open>Nil results\<close>

lemma Also_no_arguments:
  "Also sched fe [] = Inr None \<longleftrightarrow> entries (getNormalizedErrors sched fe) = []"
  by (cases fe) (simp_all add: Also_def entries_def Let_def)

text \<open>
  Claim C9, as stated, fails: \<open>ViaField\<close> on the non-nil accumulator \<open>&FieldError{}\<close>, which
  has no normalized entries, returns a non-nil accumulator.
\<close>

theorem ViaField_empty_stays_allocated:
  "getNormalizedErrors in_order (Some zero_FieldError) = Some []
   \<and> ViaField in_order (Some zero_FieldError) [''field''] = Inr (Some zero_FieldError)
   \<and> ViaField in_order (Some zero_FieldError) [''field''] \<noteq> Inr None"
  by (simp add: ViaField_def entries_def)

text \<open>
  Claim C9, amended. \<open>ViaField\<close>, \<open>ViaIndex\<close>, \<open>ViaKey\<close>, \<open>ViaFieldIndex\<close> and
  \<open>ViaFieldKey\<close> return nil exactly when their receiver is nil; \<open>Also\<close> without arguments
  returns nil exactly when its receiver is nil or has no normalized entries.
\<close>

theorem nil_results_characterised:
  "(ViaField sched fe pre = Inr None \<longleftrightarrow> fe = None)
   \<and> (ViaIndex sched fe i = Inr None \<longleftrightarrow> fe = None)
   \<and> (ViaKey sched fe k = Inr None \<longleftrightarrow> fe = None)
   \<and> (ViaFieldIndex sched fe field i = Inr None \<longleftrightarrow> fe = None)
   \<and> (ViaFieldKey sched fe field k = Inr None \<longleftrightarrow> fe = None)
   \<and> (Also sched fe [] = Inr None \<longleftrightarrow> entries (getNormalizedErrors sched fe) = [])"
proof -
  have chain: "(case ViaField sched fe p1 of Inl p \<Rightarrow> Inl p | Inr fe' \<Rightarrow> ViaField sched fe' p2) = Inr None
      \<longleftrightarrow> fe = None" for p1 p2
  proof (cases fe)
    case None
    then show ?thesis by simp
  next
    case (Some f)
    obtain v where "ViaField sched (Some f) p1 = Inr (Some v)"
      using ViaField_holds_nothing by blast
    then show ?thesis
      using Some by (simp add: ViaField_nil_iff)
  qed
  show ?thesis
    by (simp add: ViaField_nil_iff ViaIndex_def ViaKey_def ViaFieldIndex_def ViaFieldKey_def
        chain Also_no_arguments)
qed

subsection \<open>The key of an entry\<close>

text \<open>
  Claim C10. The key of an entry is its message, a hyphen and its details, so the leaf
  with message \<open>a-\<close> and details \<open>b\<close> and the leaf with message \<open>a\<close> and details \<open>-b\<close>
  share the key \<open>a--b\<close>. Normalizing an accumulator that holds both merges their paths
  into the entry visited first. \<open>Also\<close> finds the key of the second present and keeps one
  entry, but merges the stored entry with itself: the path of the second leaf is lost.
\<close>

theorem key_collision_merges_in_normalization_only:
  "key (Some (FieldError ''a-'' [''p''] ''b'' None)) = Inr ''a--b''
   \<and> key (Some (FieldError ''a'' [''q''] ''-b'' None)) = Inr ''a--b''
   \<and> getNormalizedErrors in_order (Some (FieldError [] [] []
        (Some [(''x'', FieldError ''a-'' [''p''] ''b'' None),
               (''y'', FieldError ''a'' [''q''] ''-b'' None)])))
       = Some [(''a--b'', FieldError ''a-'' [''p'', ''q''] ''b'' None)]
   \<and> Also sched (Some (FieldError ''a-'' [''p''] ''b'' None))
        [Some (FieldError ''a'' [''q''] ''-b'' None)]
       = Inr (Some (FieldError [] [] [] (Some [(''a--b'', FieldError ''a-'' [''p''] ''b'' None)])))"
  by (simp add: eval_defs)

end
